theory Spec2Isabelle
  imports Complex_Main "HOL-Library.Multiset" "HOL-Library.Char_ord" "HOL-Library.List_Lexorder"
begin

section \<open>Values, columns and errors\<close>

text \<open>
  A numeric array element is either the float not-a-number marker or a number. Finite
  floats and Python integers are both read as reals: rounding and the infinities of
  IEEE arithmetic are not part of this development.
\<close>

datatype cell = NaN | Num real

text \<open>The exceptions the modelled code raises or catches.\<close>

datatype error =
    AttributeError string
  | KeyError string
  | ValueError
  | TypeError
  | RecursionError
  | OSError
  | CacheError string

definition isnan :: "cell \<Rightarrow> bool" where
  "isnan c = (c = NaN)"

text \<open>\<^verbatim>\<open>np.where(np.isnan(x), 0.0, x)\<close> on one element.\<close>

fun nan_to_zero :: "cell \<Rightarrow> real" where
  "nan_to_zero NaN = 0"
| "nan_to_zero (Num x) = x"

section \<open>utils.py: select_by_year\<close>

text \<open>
  A year specification is a dict or a list of pairs \<^verbatim>\<open>(item, value)\<close>; a dict is first
  turned into the list of its items. An item is a single bound or a pair of bounds, a
  bound being a year or one of the placeholders \<^verbatim>\<open>...\<close> and \<^verbatim>\<open>None\<close>. A value is a raw
  column name (a str), a literal number, or \<^verbatim>\<open>None\<close> for a field that a year lacks.
\<close>

datatype bound = Open | Year int
datatype item = Single bound | Pair bound bound
datatype outcome = Col string | Lit real | Unavailable

text \<open>Normalised bounds: a year or one of the two float infinities.\<close>

datatype ext = NegInf | Fin int | PosInf

fun ext_lt :: "ext \<Rightarrow> ext \<Rightarrow> bool" where
  "ext_lt NegInf NegInf = False"
| "ext_lt NegInf _ = True"
| "ext_lt (Fin x) (Fin y) = (x < y)"
| "ext_lt (Fin x) PosInf = True"
| "ext_lt (Fin x) NegInf = False"
| "ext_lt PosInf _ = False"

definition ext_le :: "ext \<Rightarrow> ext \<Rightarrow> bool" where
  "ext_le a b = (a = b \<or> ext_lt a b)"

type_synonym triple = "ext \<times> ext \<times> outcome"

fun lower_of :: "bound \<Rightarrow> ext" where
  "lower_of Open = NegInf"
| "lower_of (Year y) = Fin y"

fun upper_of :: "bound \<Rightarrow> ext" where
  "upper_of Open = PosInf"
| "upper_of (Year y) = Fin y"

fun normalize :: "item \<times> outcome \<Rightarrow> triple" where
  "normalize (Single x, v) = (lower_of x, upper_of x, v)"
| "normalize (Pair a b, v) = (lower_of a, upper_of b, v)"

text \<open>
  Python's \<^verbatim>\<open><\<close> on two values: defined between two strings and between two numbers,
  TypeError otherwise (\<^verbatim>\<open>None\<close> is ordered with nothing, not even with itself).
\<close>

fun outcome_lt :: "outcome \<Rightarrow> outcome \<Rightarrow> error + bool" where
  "outcome_lt (Col s) (Col t) = Inr (s < t)"
| "outcome_lt (Lit x) (Lit y) = Inr (x < y)"
| "outcome_lt _ _ = Inl TypeError"

text \<open>
  Python's \<^verbatim>\<open><\<close> on two tuples \<^verbatim>\<open>(a, b, value)\<close>: the first position where the tuples
  differ (by \<^verbatim>\<open>==\<close>) decides, by \<^verbatim>\<open><\<close> on that position; equal tuples are not less.
\<close>

fun tuple_lt :: "triple \<Rightarrow> triple \<Rightarrow> error + bool" where
  "tuple_lt (a, b, v) (a', b', v') =
     (if a \<noteq> a' then Inr (ext_lt a a')
      else if b \<noteq> b' then Inr (ext_lt b b')
      else if v \<noteq> v' then outcome_lt v v'
      else Inr False)"

text \<open>
  \<^verbatim>\<open>spec.sort()\<close>: a stable comparison sort that asks only \<^verbatim>\<open><\<close> of its elements and
  lets an exception of a comparison escape. It is written here as an insertion sort.
\<close>

fun insert_item :: "triple \<Rightarrow> triple list \<Rightarrow> error + triple list" where
  "insert_item x [] = Inr [x]"
| "insert_item x (y # ys) =
     (case tuple_lt y x of
        Inl e \<Rightarrow> Inl e
      | Inr True \<Rightarrow> (case insert_item x ys of Inl e \<Rightarrow> Inl e | Inr r \<Rightarrow> Inr (y # r))
      | Inr False \<Rightarrow> Inr (x # y # ys))"

fun list_sort :: "triple list \<Rightarrow> error + triple list" where
  "list_sort [] = Inr []"
| "list_sort (x # xs) =
     (case list_sort xs of Inl e \<Rightarrow> Inl e | Inr s \<Rightarrow> insert_item x s)"

text \<open>The test \<^verbatim>\<open>a <= year <= b\<close> and the loop that returns the first hit.\<close>

fun contains_year :: "int \<Rightarrow> triple \<Rightarrow> bool" where
  "contains_year year (a, b, v) = (ext_le a (Fin year) \<and> ext_le (Fin year) b)"

fun first_match :: "int \<Rightarrow> triple list \<Rightarrow> error + outcome" where
  "first_match year [] = Inl ValueError"
| "first_match year ((a, b, v) # rest) =
     (if contains_year year (a, b, v) then Inr v else first_match year rest)"

definition select_by_year :: "int \<Rightarrow> (item \<times> outcome) list \<Rightarrow> error + outcome" where
  "select_by_year year D =
     (case list_sort (map normalize D) of
        Inl e \<Rightarrow> Inl e
      | Inr spec \<Rightarrow> first_match year spec)"

text \<open>
  A specification can be sorted when any two entries that normalise to the same pair of
  bounds have values that Python can order: both strings, both numbers, or both None
  (equal values are never asked for their order).
\<close>

fun same_kind :: "outcome \<Rightarrow> outcome \<Rightarrow> bool" where
  "same_kind (Col s) (Col t) = True"
| "same_kind (Lit x) (Lit y) = True"
| "same_kind Unavailable Unavailable = True"
| "same_kind _ _ = False"

definition sortable :: "triple list \<Rightarrow> bool" where
  "sortable N = list_all (\<lambda>p. list_all (\<lambda>q.
       fst p = fst q \<and> fst (snd p) = fst (snd q) \<longrightarrow> same_kind (snd (snd p)) (snd (snd q))) N) N"

text \<open>The order of two normalised entries by their lower bounds.\<close>

definition by_lower :: "triple \<Rightarrow> triple \<Rightarrow> bool" where
  "by_lower p q = ext_le (fst p) (fst q)"

section \<open>Utility functions of transformer/base.py\<close>

subsection \<open>sum_na\<close>

text \<open>
  An in-place numpy operator \<^verbatim>\<open>acc op= x\<close> on one-dimensional arrays: the right operand
  must have the length of the left one, or length one (it is then broadcast); any other
  shape raises ValueError.
\<close>

definition inplace :: "('a \<Rightarrow> 'b \<Rightarrow> 'a) \<Rightarrow> 'a list \<Rightarrow> 'b list \<Rightarrow> error + 'a list" where
  "inplace f acc x =
     (if length x = length acc then Inr (map2 f acc x)
      else if length x = 1 then Inr (map (\<lambda>a. f a (hd x)) acc)
      else Inl ValueError)"

text \<open>The two \<^verbatim>\<open>for x in others\<close> loops of \<^verbatim>\<open>sum_na\<close>.\<close>

fun mask_loop :: "bool list \<Rightarrow> cell list list \<Rightarrow> error + bool list" where
  "mask_loop isnull [] = Inr isnull"
| "mask_loop isnull (x # others) =
     (case inplace (\<lambda>b c. b \<and> isnan c) isnull x of
        Inl e \<Rightarrow> Inl e
      | Inr isnull' \<Rightarrow> mask_loop isnull' others)"

fun sum_loop :: "real list \<Rightarrow> cell list list \<Rightarrow> error + real list" where
  "sum_loop res [] = Inr res"
| "sum_loop res (x # others) =
     (case inplace (\<lambda>r c. r + nan_to_zero c) res x of
        Inl e \<Rightarrow> Inl e
      | Inr res' \<Rightarrow> sum_loop res' others)"

text \<open>
  \<^verbatim>\<open>sum_na(*args)\<close>: unpacking \<^verbatim>\<open>x0, *others\<close> of no argument raises ValueError; the
  last step \<^verbatim>\<open>res[isnull] = nan\<close> writes the marker back where the mask is set.
\<close>

definition sum_na :: "cell list list \<Rightarrow> error + cell list" where
  "sum_na args =
     (case args of
        [] \<Rightarrow> Inl ValueError
      | x0 # others \<Rightarrow>
          (case mask_loop (map isnan x0) others of
             Inl e \<Rightarrow> Inl e
           | Inr isnull \<Rightarrow>
               (case sum_loop (map nan_to_zero x0) others of
                  Inl e \<Rightarrow> Inl e
                | Inr res \<Rightarrow> Inr (map2 (\<lambda>r b. if b then NaN else Num r) res isnull))))"

text \<open>
  The composition rule in the words of the specification, for one row: missing when
  every input is missing, otherwise the sum with missing inputs counted as zero.
\<close>

definition row_sum :: "cell list \<Rightarrow> cell" where
  "row_sum r = (if list_all isnan r then NaN else Num (sum_list (map nan_to_zero r)))"

definition row :: "cell list list \<Rightarrow> nat \<Rightarrow> cell list" where
  "row cols i = map (\<lambda>c. c ! i) cols"

subsection \<open>Sentinel cleaning\<close>

text \<open>
  \<^verbatim>\<open>np.where(col == self.missing, float('nan'), col)\<close> of \<^verbatim>\<open>Field.transform\<close>, applied
  only when a sentinel is declared (\<^verbatim>\<open>self.missing is not None\<close>).
\<close>

definition where_missing :: "real option \<Rightarrow> cell list \<Rightarrow> cell list" where
  "where_missing missing col =
     (case missing of
        None \<Rightarrow> col
      | Some m \<Rightarrow> map (\<lambda>c. if c = Num m then NaN else c) col)"

definition income_missing :: "real list" where
  "income_missing = [-1, 999999, 9999999, 99999999, 999999999, 999999999999]"

text \<open>\<^verbatim>\<open>lst[lst == value] = float('nan')\<close>.\<close>

definition mask_value :: "real \<Rightarrow> cell list \<Rightarrow> cell list" where
  "mask_value v lst = map (\<lambda>c. if c = Num v then NaN else c) lst"

text \<open>\<^verbatim>\<open>IncomeField.remove_missing\<close>: one pass per sentinel, in the order of the list.\<close>

definition remove_missing :: "cell list \<Rightarrow> cell list" where
  "remove_missing lst = fold mask_value income_missing lst"

subsection \<open>Columns\<close>

text \<open>
  A column of a table is an array, or a scalar that pandas broadcasts over the rows of
  the table: \<^verbatim>\<open>df[k] = None\<close> gives a column holding None in every row, and
  \<^verbatim>\<open>np.ones(len(df)) * x\<close> one holding \<open>x\<close> in every row. The number of rows is not
  recorded: the rows of one survey year are aligned throughout (the working-table
  invariant of the data model), and the length checks of pandas are outside this
  development.
\<close>

datatype column = Arr "cell list" | Fill cell | NoneFill

text \<open>The two cleaning steps on a column; \<^verbatim>\<open>np.asfarray\<close> reads None as not-a-number.\<close>

fun where_missing_col :: "real option \<Rightarrow> column \<Rightarrow> column" where
  "where_missing_col m (Arr xs) = Arr (where_missing m xs)"
| "where_missing_col m (Fill c) = Fill (hd (where_missing m [c]))"
| "where_missing_col m NoneFill = NoneFill"

fun remove_missing_col :: "column \<Rightarrow> column" where
  "remove_missing_col (Arr xs) = Arr (remove_missing xs)"
| "remove_missing_col (Fill c) = Fill (hd (remove_missing [c]))"
| "remove_missing_col NoneFill = Fill NaN"

section \<open>Tables\<close>

text \<open>
  A pandas DataFrame as the ordered list of its named columns. \<^verbatim>\<open>df[k]\<close> raises
  KeyError for a name that is no column; \<^verbatim>\<open>df[k] = v\<close> replaces the column in place
  or appends a new last column; \<^verbatim>\<open>df[[k1, ..., kn]]\<close> is the table of the named
  columns in the order asked.
\<close>

type_synonym frame = "(string \<times> column) list"

definition columns :: "frame \<Rightarrow> string list" where
  "columns df = map fst df"

definition getitem :: "frame \<Rightarrow> string \<Rightarrow> error + column" where
  "getitem df k = (case map_of df k of None \<Rightarrow> Inl (KeyError k) | Some c \<Rightarrow> Inr c)"

definition setitem :: "frame \<Rightarrow> string \<Rightarrow> column \<Rightarrow> frame" where
  "setitem df k v =
     (if k \<in> set (columns df) then map (\<lambda>(n, c). if n = k then (n, v) else (n, c)) df
      else df @ [(k, v)])"

fun getitems :: "frame \<Rightarrow> string list \<Rightarrow> error + frame" where
  "getitems df [] = Inr []"
| "getitems df (k # ks) =
     (case map_of df k of
        None \<Rightarrow> Inl (KeyError k)
      | Some c \<Rightarrow> (case getitems df ks of Inl e \<Rightarrow> Inl e | Inr r \<Rightarrow> Inr ((k, c) # r)))"

text \<open>
  \<^verbatim>\<open>pd.DataFrame(d, columns=cols)\<close> for a dict \<open>d\<close>: the columns named by \<open>cols\<close>, in
  that order; a name the dict lacks gives a column of missing values.
\<close>

definition DataFrame :: "(string \<Rightarrow> column option) \<Rightarrow> string list \<Rightarrow> frame" where
  "DataFrame d cols = map (\<lambda>c. (c, case d c of None \<Rightarrow> Fill NaN | Some a \<Rightarrow> a)) cols"

section \<open>cache.py\<close>

text \<open>\<^verbatim>\<open>str(year)\<close> for a Python int: decimal digits, with a minus sign when negative.\<close>

definition digit_char :: "nat \<Rightarrow> char" where
  "digit_char d = ''0123456789'' ! d"

function str_nat :: "nat \<Rightarrow> string" where
  "str_nat n = (if n < 10 then [digit_char n] else str_nat (n div 10) @ [digit_char (n mod 10)])"
  by pat_completeness auto
termination
  by (relation "measure id") auto

declare str_nat.simps [simp del]

definition str_int :: "int \<Rightarrow> string" where
  "str_int i = (if i < 0 then CHR ''-'' # str_nat (nat (- i)) else str_nat (nat i))"

text \<open>
  \<^verbatim>\<open>cache_path(sub)\<close> of utils.py names a file of the cache directory and
  \<^verbatim>\<open>Cache._path(year, col)\<close> is \<^verbatim>\<open>cache_path(f'cache-{col}-{str(year)}.npy')\<close>. The
  directory is kept as the relative prefix \<^verbatim>\<open>cache/\<close>.
\<close>

definition cache_path :: "string \<Rightarrow> string" where
  "cache_path sub = ''cache/'' @ sub"

definition path :: "int \<Rightarrow> string \<Rightarrow> string" where
  "path yr col = cache_path (''cache-'' @ col @ ''-'' @ str_int yr @ ''.npy'')"

text \<open>
  Durable storage is the map from file names to the arrays saved under them:
  \<^verbatim>\<open>np.save\<close> writes or replaces one file, \<^verbatim>\<open>np.load\<close> raises FileNotFoundError for a
  name with no file. Other failures of the file system are not modelled: the cache
  directory exists, is flat and can be written, and the names of columns are such that
  \<^verbatim>\<open>cache-{col}-{year}.npy\<close> is the name of a file in it.
\<close>

type_synonym files = "string \<Rightarrow> column option"

text \<open>
  The names of columns for which that is so: no \<^verbatim>\<open>/\<close>, which would make pathlib read
  the name as a path into a directory that does not exist (\<^verbatim>\<open>np.save\<close> then raises
  FileNotFoundError), no NUL, which no file name may hold (ValueError), and a file name
  of at most 255 bytes, the limit of the common file systems (OSError).
\<close>

definition plain :: "int \<Rightarrow> string \<Rightarrow> bool" where
  "plain yr col =
     (CHR ''/'' \<notin> set col \<and> CHR 0x00 \<notin> set col
      \<and> length (''cache-'' @ col @ ''-'' @ str_int yr @ ''.npy'') \<le> 255)"

text \<open>
  \<^verbatim>\<open>Cache.save(year, data)\<close>, for a table whose column names are plain: one file per
  column of the table, in column order.
\<close>

fun save :: "int \<Rightarrow> frame \<Rightarrow> files \<Rightarrow> files" where
  "save yr [] fs = fs"
| "save yr ((name, col) # rest) fs = save yr rest (fs(path yr name \<mapsto> col))"

text \<open>
  \<^verbatim>\<open>Cache.load(year, cols)\<close>: the loop fills the dict \<^verbatim>\<open>df\<close> and raises
  \<^verbatim>\<open>CacheError(col)\<close> at the first name without a file.
\<close>

fun load_loop :: "files \<Rightarrow> int \<Rightarrow> string list \<Rightarrow> (string \<Rightarrow> column option)
    \<Rightarrow> error + (string \<Rightarrow> column option)" where
  "load_loop fs yr [] d = Inr d"
| "load_loop fs yr (col # cols) d =
     (case fs (path yr col) of
        None \<Rightarrow> Inl (CacheError col)
      | Some a \<Rightarrow> load_loop fs yr cols (d(col \<mapsto> a)))"

definition load :: "files \<Rightarrow> int \<Rightarrow> string list \<Rightarrow> error + frame" where
  "load fs yr cols =
     (case load_loop fs yr cols Map.empty of
        Inl e \<Rightarrow> Inl e
      | Inr d \<Rightarrow> Inr (DataFrame d cols))"

section \<open>transformer/base.py: descriptors, proxy and transformer\<close>

text \<open>
  What a field function may do with the proxy it is given: return a column or None,
  raise, or read a name from the proxy, by attribute (\<^verbatim>\<open>df.name\<close>) or by item
  (\<^verbatim>\<open>df['name']\<close>), and go on with what it read. Field functions do not touch the cache,
  so the exceptions they raise themselves do not include CacheError.
\<close>

datatype access = ByAttr | ByItem

datatype raised =
    RaiseKeyError string
  | RaiseValueError
  | RaiseTypeError
  | RaiseAttributeError string
  | RaiseOSError

fun exn :: "raised \<Rightarrow> error" where
  "exn (RaiseKeyError k) = KeyError k"
| "exn RaiseValueError = ValueError"
| "exn RaiseTypeError = TypeError"
| "exn (RaiseAttributeError k) = AttributeError k"
| "exn RaiseOSError = OSError"

datatype func =
    Return "column option"
  | Raise raised
  | Get access string "column option \<Rightarrow> func"

text \<open>
  The \<^verbatim>\<open>spec\<close> of a \<^verbatim>\<open>Field\<close> is a str, a dict or list of year ranges, or anything
  else (\<open>Invalid\<close>); \<^verbatim>\<open>missing\<close> is the declared sentinel or None.
\<close>

datatype spec = Name string | Years "(item \<times> outcome) list" | Invalid

datatype descriptor =
    Field spec "real option"
  | IncomeField spec "real option"
  | FunctionField func

text \<open>
  A transformer: its year, the tuple \<^verbatim>\<open>_fields\<close> of requested names (\<open>requested\<close>), the
  descriptors declared on its class, and what a call \<^verbatim>\<open>loader()\<close> of its raw-source loader
  does: it raises, for instance OSError when the file of the survey is missing, or returns
  the raw table. The loader takes no argument, as \<^verbatim>\<open>_fallback\<close> calls it. Descriptors are
  declared under public names, the names \<^verbatim>\<open>_all_fields\<close> lists; a method of a catalogue
  class that is not decorated, such as \<^verbatim>\<open>race\<close> of transformer/person.py, is called with the
  proxy like the function of a \<^verbatim>\<open>FunctionField\<close> and is a descriptor here.
\<close>

record transformer =
  year :: int
  requested :: "string list"
  descriptors :: "string \<Rightarrow> descriptor option"
  loader :: "raised + frame"

text \<open>
  The attributes that \<^verbatim>\<open>Transformer\<close> itself gives an instance besides \<^verbatim>\<open>year\<close>: the
  instance attributes set by \<^verbatim>\<open>__init__\<close> and the methods of the class. None of them can
  be called with the proxy as its one argument: the cache and the tuple of names are not
  callable, and the loader and the bound methods take no such argument.
\<close>

definition own_attributes :: "string list" where
  "own_attributes = [''_cache'', ''_fields'', ''_loader'', ''_all_fields'', ''_load_cached'',
                     ''__call__'', ''__init__'']"



text \<open>
  The state of one \<^verbatim>\<open>DataFrameProxy\<close>: the working table \<^verbatim>\<open>__data\<close> (the same object
  as \<^verbatim>\<open>df\<close> in \<^verbatim>\<open>Transformer.__call__\<close>), the handle \<^verbatim>\<open>__raw\<close>, and the number of
  times the loader has been called so far.
\<close>

record session =
  data :: frame
  raw :: "frame option"
  calls :: nat

text \<open>\<^verbatim>\<open>np.array(v)\<close> of what the proxy returned; None becomes an array holding None.\<close>

fun np_array :: "column option \<Rightarrow> column" where
  "np_array None = NoneFill"
| "np_array (Some c) = c"

text \<open>
  The last part of \<^verbatim>\<open>_fallback\<close>: the lookup in the raw table \<open>r\<close>. A hit is stored in
  the working table (\<^verbatim>\<open>col = self[item] = self.__raw[item]\<close>); on KeyError the exception
  \<open>exc\<close> of the first lookup is raised.
\<close>

definition raw_lookup :: "string \<Rightarrow> error \<Rightarrow> frame \<Rightarrow> session \<Rightarrow> (error + column option) \<times> session" where
  "raw_lookup item exc r s =
     (case map_of r item of
        None \<Rightarrow> (Inl exc, s)
      | Some c \<Rightarrow> (Inr (Some c), s\<lparr>data := setitem (data s) item c\<rparr>))"

text \<open>
  The proxy and the descriptors call each other. Every function returns its result or
  exception together with the session, since what was stored before an exception stays
  stored. The first argument bounds the number of nested evaluations and reads: a
  catalogue whose fields depend on each other in a cycle exhausts any bound, as it
  exhausts the recursion limit of Python, and ends in RecursionError.

  \<^item> \<open>proxy_get\<close> is \<^verbatim>\<open>__getattr__\<close> and \<^verbatim>\<open>__getitem__\<close>: the column of the working
    table, or \<^verbatim>\<open>_fallback\<close> with the exception of the failed lookup. A name read by
    attribute is taken not to be one of the attributes that pandas itself gives a table.
  \<^item> \<open>fallback\<close> is \<^verbatim>\<open>_fallback\<close>. For the attribute \<^verbatim>\<open>year\<close> the int is called and
    TypeError raised, and so it is for the other attributes of the transformer that are
    no descriptors. For a descriptor, \<^verbatim>\<open>col = self.__data[item] = fn(self)\<close> stores the
    result, also when it is None. Otherwise the loader is called unless the handle is
    held: an exception of the loader escapes and leaves the session without a handle,
    a table returned is kept as the handle; then the name is looked up in the table.
  \<^item> \<open>transform\<close> is the \<^verbatim>\<open>transform\<close> method of the three descriptor classes.
  \<^item> \<open>field_transform\<close> is \<^verbatim>\<open>Field.transform\<close>; \<open>read_column\<close> is its second half,
    from \<^verbatim>\<open>np.array(df[field])\<close> on, where KeyError means None.
  \<^item> \<open>run\<close> calls a field function.
\<close>

function (sequential) proxy_get :: "nat \<Rightarrow> transformer \<Rightarrow> access \<Rightarrow> string \<Rightarrow> session \<Rightarrow> (error + column option) \<times> session"
  and fallback :: "nat \<Rightarrow> transformer \<Rightarrow> string \<Rightarrow> error \<Rightarrow> session \<Rightarrow> (error + column option) \<times> session"
  and transform :: "nat \<Rightarrow> transformer \<Rightarrow> descriptor \<Rightarrow> session \<Rightarrow> (error + column option) \<times> session"
  and field_transform :: "nat \<Rightarrow> transformer \<Rightarrow> spec \<Rightarrow> real option \<Rightarrow> session \<Rightarrow> (error + column option) \<times> session"
  and read_column :: "nat \<Rightarrow> transformer \<Rightarrow> string \<Rightarrow> real option \<Rightarrow> session \<Rightarrow> (error + column option) \<times> session"
  and run :: "nat \<Rightarrow> transformer \<Rightarrow> func \<Rightarrow> session \<Rightarrow> (error + column option) \<times> session"
where
  "proxy_get n T a item s =
     (case map_of (data s) item of
        Some c \<Rightarrow> (Inr (Some c), s)
      | None \<Rightarrow> fallback n T item (case a of ByAttr \<Rightarrow> AttributeError item | ByItem \<Rightarrow> KeyError item) s)"
| "fallback n T item exc s =
     (if item = ''year'' then (Inl TypeError, s)
      else case descriptors T item of
        Some d \<Rightarrow>
          (case n of
             0 \<Rightarrow> (Inl RecursionError, s)
           | Suc m \<Rightarrow>
               (case transform m T d s of
                  (Inl e, s') \<Rightarrow> (Inl e, s')
                | (Inr col, s') \<Rightarrow> (Inr col, s'\<lparr>data := setitem (data s') item (np_array col)\<rparr>)))
      | None \<Rightarrow>
          if item \<in> set own_attributes then (Inl TypeError, s)
          else
            (case raw s of
               None \<Rightarrow>
                 (case loader T of
                    Inl e \<Rightarrow> (Inl (exn e), s\<lparr>calls := Suc (calls s)\<rparr>)
                  | Inr r \<Rightarrow> raw_lookup item exc r (s\<lparr>raw := Some r, calls := Suc (calls s)\<rparr>))
             | Some r \<Rightarrow> raw_lookup item exc r s))"
| "transform n T (Field sp m) s = field_transform n T sp m s"
| "transform n T (IncomeField sp m) s =
     (case field_transform n T sp m s of
        (Inl e, s') \<Rightarrow> (Inl e, s')
      | (Inr None, s') \<Rightarrow> (Inr (Some (Fill NaN)), s')
      | (Inr (Some lst), s') \<Rightarrow> (Inr (Some (remove_missing_col lst)), s'))"
| "transform n T (FunctionField f) s = run n T f s"
| "field_transform n T (Name f) m s = read_column n T f m s"
| "field_transform n T (Years D) m s =
     (case select_by_year (year T) D of
        Inl e \<Rightarrow> (Inl e, s)
      | Inr Unavailable \<Rightarrow> (Inr None, s)
      | Inr (Lit x) \<Rightarrow> (Inr (Some (Fill (Num x))), s)
      | Inr (Col f) \<Rightarrow> read_column n T f m s)"
| "field_transform n T Invalid m s = (Inl ValueError, s)"
| "read_column n T f m s =
     (case proxy_get n T ByItem f s of
        (Inl (KeyError k), s') \<Rightarrow> (Inr None, s')
      | (Inl e, s') \<Rightarrow> (Inl e, s')
      | (Inr v, s') \<Rightarrow> (Inr (Some (where_missing_col m (np_array v))), s'))"
| "run n T (Return v) s = (Inr v, s)"
| "run n T (Raise e) s = (Inl (exn e), s)"
| "run 0 T (Get a item cont) s = (Inl RecursionError, s)"
| "run (Suc n) T (Get a item cont) s =
     (case proxy_get n T a item s of
        (Inl e, s') \<Rightarrow> (Inl e, s')
      | (Inr v, s') \<Rightarrow> run n T (cont v) s')"
  by pat_completeness auto
termination
  by (relation "measure (\<lambda>x. case x of
        Inl (Inl (n, r)) \<Rightarrow> 6 * n + 1
      | Inl (Inr (Inl (n, r))) \<Rightarrow> 6 * n
      | Inl (Inr (Inr (n, r))) \<Rightarrow> 6 * n + 5
      | Inr (Inl (n, r)) \<Rightarrow> 6 * n + 3
      | Inr (Inr (Inl (n, r))) \<Rightarrow> 6 * n + 2
      | Inr (Inr (Inr (n, r))) \<Rightarrow> 6 * n + 4)") simp_all

text \<open>
  What outlives a call: the files of the cache and the number of times the raw-source
  loader has been called.
\<close>

record world =
  cache :: files
  loads :: nat

text \<open>
  \<^verbatim>\<open>Transformer._load_cached\<close>: one \<^verbatim>\<open>Cache.load\<close> per requested name other than
  \<^verbatim>\<open>year\<close>; a CacheError is passed over, any other exception escapes.
\<close>

fun load_cached_loop :: "transformer \<Rightarrow> files \<Rightarrow> string list \<Rightarrow> frame \<Rightarrow> error + frame" where
  "load_cached_loop T fs [] df = Inr df"
| "load_cached_loop T fs (attr # rest) df =
     (if attr = ''year'' then load_cached_loop T fs rest df
      else case load fs (year T) [attr] of
        Inl (CacheError c) \<Rightarrow> load_cached_loop T fs rest df
      | Inl e \<Rightarrow> Inl e
      | Inr loaded \<Rightarrow>
          (case getitem loaded attr of
             Inl e \<Rightarrow> Inl e
           | Inr col \<Rightarrow> load_cached_loop T fs rest (setitem df attr col)))"

definition load_cached :: "transformer \<Rightarrow> files \<Rightarrow> error + frame" where
  "load_cached T fs = load_cached_loop T fs (requested T) []"

text \<open>
  The \<^verbatim>\<open>for attr in self._fields\<close> loop of \<^verbatim>\<open>Transformer.__call__\<close>. The dict
  \<^verbatim>\<open>extra\<close> keeps its keys in the order of their first assignment, as a table does.
\<close>

fun resolve_loop :: "nat \<Rightarrow> transformer \<Rightarrow> string list \<Rightarrow> frame \<Rightarrow> session \<Rightarrow> (error + frame) \<times> session" where
  "resolve_loop n T [] extra s = (Inr extra, s)"
| "resolve_loop n T (attr # rest) extra s =
     (if attr = ''year'' then resolve_loop n T rest extra s
      else if attr \<notin> set (columns (data s)) then
        (case proxy_get n T ByAttr attr s of
           (Inl e, s') \<Rightarrow> (Inl e, s')
         | (Inr None, s') \<Rightarrow> resolve_loop n T rest extra s'
         | (Inr (Some col), s') \<Rightarrow>
             resolve_loop n T rest (setitem extra attr col) (s'\<lparr>data := setitem (data s') attr col\<rparr>))
      else resolve_loop n T rest extra s)"

text \<open>
  \<^verbatim>\<open>Transformer.__call__\<close>, the operation the specification calls materialize. A new
  proxy starts with no raw handle. After the loop: the year column, the batch write
  of \<^verbatim>\<open>extra\<close> when it is not empty, and the slice to the requested names that are
  columns of the working table. With the number of rows of a column not recorded, the
  ValueError that \<^verbatim>\<open>pd.DataFrame(extra)\<close> and the assignment of a column raise for
  columns that differ in their number of rows has no place here: where the code raises
  it, the result below is still a table.
\<close>

definition call :: "nat \<Rightarrow> transformer \<Rightarrow> world \<Rightarrow> (error + frame) \<times> world" where
  "call n T w =
     (case load_cached T (cache w) of
        Inl e \<Rightarrow> (Inl e, w)
      | Inr df \<Rightarrow>
          if length (columns df) = length (requested T) then (Inr df, w)
          else
            (case resolve_loop n T (requested T) [] \<lparr>data = df, raw = None, calls = loads w\<rparr> of
               (Inl e, s) \<Rightarrow> (Inl e, w\<lparr>loads := calls s\<rparr>)
             | (Inr extra, s) \<Rightarrow>
                 (let new = (if ''year'' \<in> set (requested T)
                             then setitem (data s) ''year'' (Fill (Num (of_int (year T))))
                             else data s);
                      w' = \<lparr>cache = (if extra \<noteq> [] then save (year T) extra (cache w) else cache w),
                            loads = calls s\<rparr>
                  in (case getitems new (filter (\<lambda>c. c \<in> set (columns new)) (requested T)) of
                        Inl e \<Rightarrow> (Inl e, w')
                      | Inr out \<Rightarrow> (Inr out, w')))))"

section \<open>Auxiliary notions for the statements\<close>

text \<open>
  How the handle and the call counter of a session may change while a name is resolved
  with result \<open>r\<close>. A held handle is kept, with the counter unchanged. While no handle
  is held, and provided the loader does not raise KeyError, either the loader was not
  called, or it was called once and returned the table now held, or it was called once
  and raised the exception that is the result.
\<close>

definition no_key_error :: "transformer \<Rightarrow> bool" where
  "no_key_error T = (case loader T of Inl (RaiseKeyError k) \<Rightarrow> False | _ \<Rightarrow> True)"

definition step :: "transformer \<Rightarrow> session \<Rightarrow> error + 'a \<Rightarrow> session \<Rightarrow> bool" where
  "step T s r s' =
     (case raw s of
        Some t \<Rightarrow> raw s' = Some t \<and> calls s' = calls s
      | None \<Rightarrow>
          no_key_error T \<longrightarrow>
            (raw s' = None \<and> calls s' = calls s)
            \<or> (calls s' = Suc (calls s)
                \<and> (case loader T of
                       Inr t \<Rightarrow> raw s' = Some t
                     | Inl e \<Rightarrow> raw s' = None \<and> r = Inl (exn e))))"

text \<open>
  A small catalogue in the style of transformer/person.py and transformer/economy.py,
  for a transformer of the year 1985 whose raw table has the two columns V9991 and
  V303, and a world with an empty cache and a loader never called.
\<close>

definition example_catalog :: "string \<Rightarrow> descriptor option" where
  "example_catalog = map_of
     [(''weight'', Field (Years [(Pair (Year 1992) Open, Col ''V4729''),
                                 (Single (Year 1990), Col ''V3091''),
                                 (Pair (Year 1981) (Year 1989), Col ''V9991'')]) (Some (-1))),
      (''weight_family'', Field (Years [(Pair (Year 1992) Open, Col ''V4732''),
                                        (Pair (Year 1981) (Year 1990), Col ''V9971'')]) (Some (-1))),
      (''occupation_year'', Field (Years [(Pair (Year 1992) Open, Col ''V9971''),
                                          (Pair Open (Year 1990), Unavailable)]) (Some (-1))),
      (''income_retirement_other'', IncomeField (Years [(Pair (Year 1992) Open, Col ''V1258''),
                                                        (Pair Open (Year 1990), Unavailable)]) (Some (-1))),
      (''gender_id'', FunctionField (Get ByAttr ''V303'' Return)),
      (''gender'', FunctionField (Get ByAttr ''gender_id'' Return))]"

definition example :: "string list \<Rightarrow> transformer" where
  "example F = \<lparr>year = 1985, requested = F, descriptors = example_catalog,
                 loader = Inr [(''V9991'', Arr [Num 1, Num (-1)]), (''V303'', Arr [Num 1, Num 3])]\<rparr>"

definition empty_world :: world where
  "empty_world = \<lparr>cache = (\<lambda>p. None), loads = 0\<rparr>"



section \<open>Properties of select_by_year\<close>

lemma ext_lt_irrefl [simp]: "\<not> ext_lt a a"
  by (cases a) auto

lemma ext_lt_trans: "ext_lt a b \<Longrightarrow> ext_lt b c \<Longrightarrow> ext_lt a c"
  by (cases a; cases b; cases c) auto

lemma ext_total: "a = b \<or> ext_lt a b \<or> ext_lt b a"
  by (cases a; cases b) auto

lemma ext_le_trans: "ext_le a b \<Longrightarrow> ext_le b c \<Longrightarrow> ext_le a c"
  unfolding ext_le_def using ext_lt_trans by blast

lemma same_kind_lt: "same_kind v w \<Longrightarrow> v \<noteq> w \<Longrightarrow> \<exists>r. outcome_lt v w = Inr r"
  by (cases v; cases w) auto

lemma same_kind_sym: "same_kind v w \<Longrightarrow> same_kind w v"
  by (cases v; cases w) auto

lemma tuple_lt_lower:
  "tuple_lt y x = Inr r \<Longrightarrow> (if r then by_lower y x else by_lower x y)"
  using ext_total[of "fst x" "fst y"]
  by (cases x; cases y) (auto simp: by_lower_def ext_le_def split: if_splits)

lemma insert_item_ok:
  assumes "\<forall>y\<in>set ys. fst y = fst x \<and> fst (snd y) = fst (snd x) \<longrightarrow> same_kind (snd (snd y)) (snd (snd x))"
    and "sorted_wrt by_lower ys"
  shows "\<exists>r. insert_item x ys = Inr r \<and> mset r = add_mset x (mset ys) \<and> sorted_wrt by_lower r"
  using assms
proof (induction ys)
  case Nil
  then show ?case by simp
next
  case (Cons y ys)
  have "\<exists>b. tuple_lt y x = Inr b"
    using Cons.prems(1) same_kind_lt[of "snd (snd y)" "snd (snd x)"]
    by (cases x; cases y) auto
  then obtain b where b: "tuple_lt y x = Inr b" by blast
  show ?case
  proof (cases b)
    case True
    from Cons obtain r where r: "insert_item x ys = Inr r" "mset r = add_mset x (mset ys)"
        "sorted_wrt by_lower r" by auto
    have yx: "by_lower y x" using tuple_lt_lower[OF b] True by simp
    have "\<forall>z\<in>set r. by_lower y z"
    proof
      fix z assume "z \<in> set r"
      then have "z \<in># mset r" by simp
      then have "z = x \<or> z \<in> set ys" using r(2) by auto
      then show "by_lower y z" using yx Cons.prems(2) by auto
    qed
    then show ?thesis using b True r by simp
  next
    case False
    have xy: "by_lower x y" using tuple_lt_lower[OF b] False by simp
    have "\<forall>z\<in>set ys. by_lower x z"
      using xy Cons.prems(2) ext_le_trans unfolding by_lower_def by auto
    then show ?thesis using b False xy Cons.prems(2) by simp
  qed
qed

lemma sortable_Cons:
  "sortable (x # xs) \<Longrightarrow> sortable xs \<and>
     (\<forall>y\<in>set xs. fst y = fst x \<and> fst (snd y) = fst (snd x) \<longrightarrow> same_kind (snd (snd y)) (snd (snd x)))"
  unfolding sortable_def by (auto simp: list_all_iff)

lemma list_sort_ok:
  "sortable N \<Longrightarrow> \<exists>S. list_sort N = Inr S \<and> mset S = mset N \<and> sorted_wrt by_lower S"
proof (induction N)
  case Nil
  then show ?case by simp
next
  case (Cons x xs)
  from sortable_Cons[OF Cons.prems] Cons.IH obtain S where
    S: "list_sort xs = Inr S" "mset S = mset xs" "sorted_wrt by_lower S" by blast
  have "\<forall>y\<in>set S. fst y = fst x \<and> fst (snd y) = fst (snd x) \<longrightarrow> same_kind (snd (snd y)) (snd (snd x))"
    using sortable_Cons[OF Cons.prems] S(2) by (metis set_mset_mset)
  from insert_item_ok[OF this S(3)] S show ?case by auto
qed

lemma first_match_find:
  "first_match y S = (case find (contains_year y) S of None \<Rightarrow> Inl ValueError | Some t \<Rightarrow> Inr (snd (snd t)))"
  by (induction y S rule: first_match.induct) auto

text \<open>
  C4, as amended. When a year specification can be sorted (any two entries with the same
  normalised bounds have values of one kind), \<^verbatim>\<open>select_by_year\<close> returns the value of
  the first interval containing the year in a list that is a rearrangement of the
  normalised entries sorted by lower bound, and it raises ValueError exactly when no
  normalised interval contains the year.
\<close>

theorem select_by_year_first:
  assumes "sortable (map normalize D)"
  shows "\<exists>S. mset S = mset (map normalize D) \<and> sorted_wrt by_lower S \<and>
           select_by_year y D =
             (case find (contains_year y) S of
                None \<Rightarrow> Inl ValueError
              | Some t \<Rightarrow> Inr (snd (snd t)))
       \<and> (select_by_year y D = Inl ValueError) = (\<not> list_ex (contains_year y) (map normalize D))"
proof -
  from list_sort_ok[OF assms] obtain S where
    S: "list_sort (map normalize D) = Inr S" "mset S = mset (map normalize D)" "sorted_wrt by_lower S"
    by blast
  have sel: "select_by_year y D = (case find (contains_year y) S of
                None \<Rightarrow> Inl ValueError | Some t \<Rightarrow> Inr (snd (snd t)))"
    by (simp add: select_by_year_def S(1) first_match_find)
  have "set S = set (map normalize D)" using S(2) by (metis set_mset_mset)
  then have "(find (contains_year y) S = None) = (\<not> list_ex (contains_year y) (map normalize D))"
    by (simp add: find_None_iff list_ex_iff)
  then have "(select_by_year y D = Inl ValueError) = (\<not> list_ex (contains_year y) (map normalize D))"
    unfolding sel by (auto split: option.splits)
  with S sel show ?thesis by blast
qed


theorem select_by_year_first_witness:
  "sortable (map normalize
      [(Pair Open (Year 1990), Col ''foo''), (Single (Year 1991), Col ''bar''),
       (Pair (Year 1992) (Year 2000), Col ''foobar''), (Pair (Year 2001) Open, Col ''blah'')])
   \<and> select_by_year 1999
      [(Pair Open (Year 1990), Col ''foo''), (Single (Year 1991), Col ''bar''),
       (Pair (Year 1992) (Year 2000), Col ''foobar''), (Pair (Year 2001) Open, Col ''blah'')]
     \<noteq> Inl ValueError"
proof -
  let ?D = "[(Pair Open (Year 1990), Col ''foo''), (Single (Year 1991), Col ''bar''),
       (Pair (Year 1992) (Year 2000), Col ''foobar''), (Pair (Year 2001) Open, Col ''blah'')]"
  have s: "sortable (map normalize ?D)" by (simp add: sortable_def)
  have "list_ex (contains_year 1999) (map normalize ?D)" by (simp add: ext_le_def)
  with select_by_year_first[OF s, of 1999] s show ?thesis by blast
qed

text \<open>
  C4 as stated fails: the dict \<^verbatim>\<open>{1990: 'V1', (1990, 1990): None}\<close> has an interval that
  contains 1990, yet sorting compares \<^verbatim>\<open>'V1'\<close> with \<^verbatim>\<open>None\<close> and the call raises
  TypeError instead of returning a value.
\<close>

theorem select_by_year_unsortable:
  "first_match 1990 (map normalize
      [(Single (Year 1990), Col ''V1''), (Pair (Year 1990) (Year 1990), Unavailable)])
     = Inr (Col ''V1'')
   \<and> select_by_year 1990
      [(Single (Year 1990), Col ''V1''), (Pair (Year 1990) (Year 1990), Unavailable)]
     = Inl TypeError"
  by (simp add: select_by_year_def ext_le_def)

section \<open>Properties of the utility functions\<close>

lemma mask_loop_eq:
  "\<forall>c\<in>set others. length c = length isnull \<Longrightarrow>
   mask_loop isnull others =
     Inr (map (\<lambda>i. isnull ! i \<and> list_all isnan (row others i)) [0..<length isnull])"
proof (induction others arbitrary: isnull)
  case Nil
  then show ?case by (simp add: row_def map_nth)
next
  case (Cons x others)
  let ?m = "map2 (\<lambda>b c. b \<and> isnan c) isnull x"
  have len: "length x = length isnull" using Cons.prems by simp
  have step: "inplace (\<lambda>b c. b \<and> isnan c) isnull x = Inr ?m"
    using len by (simp add: inplace_def)
  have "\<forall>c\<in>set others. length c = length ?m" using Cons.prems len by simp
  from Cons.IH[OF this] have "mask_loop ?m others =
      Inr (map (\<lambda>i. ?m ! i \<and> list_all isnan (row others i)) [0..<length ?m])" .
  moreover have "length ?m = length isnull" using len by simp
  ultimately show ?case using step len by (auto simp: row_def)
qed

lemma sum_loop_eq:
  "\<forall>c\<in>set others. length c = length res \<Longrightarrow>
   sum_loop res others =
     Inr (map (\<lambda>i. res ! i + sum_list (map nan_to_zero (row others i))) [0..<length res])"
proof (induction others arbitrary: res)
  case Nil
  then show ?case by (simp add: row_def map_nth)
next
  case (Cons x others)
  let ?r = "map2 (\<lambda>r c. r + nan_to_zero c) res x"
  have len: "length x = length res" using Cons.prems by simp
  have step: "inplace (\<lambda>r c. r + nan_to_zero c) res x = Inr ?r"
    using len by (simp add: inplace_def)
  have "\<forall>c\<in>set others. length c = length ?r" using Cons.prems len by simp
  from Cons.IH[OF this] have "sum_loop ?r others =
      Inr (map (\<lambda>i. ?r ! i + sum_list (map nan_to_zero (row others i))) [0..<length ?r])" .
  moreover have "length ?r = length res" using len by simp
  ultimately show ?case using step len by (auto simp: row_def add.assoc)
qed

lemma fold_mask_value:
  "fold mask_value vs lst = map (\<lambda>c. if c \<in> Num ` set vs then NaN else c) lst"
proof (induction vs arbitrary: lst)
  case Nil
  then show ?case by simp
next
  case (Cons v vs)
  show ?case by (simp add: Cons.IH) (auto simp: mask_value_def)
qed

text \<open>
  C1. For columns of equal length, \<^verbatim>\<open>sum_na\<close> returns, row by row, the sum in which a
  missing input counts as zero, except that a row whose inputs are all missing is
  missing. The statement covers any positive number of columns, so two or more.
\<close>

theorem sum_na_rows:
  assumes "cols \<noteq> []" and "\<forall>c\<in>set cols. length c = n"
  shows "sum_na cols = Inr (map (\<lambda>i. row_sum (row cols i)) [0..<n])"
proof -
  from assms(1) obtain x0 others where cols: "cols = x0 # others" by (cases cols) auto
  have l0: "length x0 = n" and lo: "\<forall>c\<in>set others. length c = n"
    using assms(2) cols by auto
  have m: "mask_loop (map isnan x0) others =
      Inr (map (\<lambda>i. map isnan x0 ! i \<and> list_all isnan (row others i)) [0..<n])"
    using mask_loop_eq[of others "map isnan x0"] l0 lo by simp
  have s: "sum_loop (map nan_to_zero x0) others =
      Inr (map (\<lambda>i. map nan_to_zero x0 ! i + sum_list (map nan_to_zero (row others i))) [0..<n])"
    using sum_loop_eq[of others "map nan_to_zero x0"] l0 lo by simp
  show ?thesis
    unfolding sum_na_def cols
    by (simp add: m s l0 row_def row_sum_def map2_map_map cong: map_cong)
qed

theorem sum_na_rows_witness:
  "sum_na [[NaN, Num 5, NaN], [NaN, NaN, Num 3]] = Inr [NaN, Num 5, Num 3] \<and>
   sum_na [[NaN, NaN], [NaN, NaN]] = Inr [NaN, NaN]"
proof -
  have a: "sum_na [[NaN, Num 5, NaN], [NaN, NaN, Num 3]] =
      Inr (map (\<lambda>i. row_sum (row [[NaN, Num 5, NaN], [NaN, NaN, Num 3]] i)) [0..<3])"
    by (rule sum_na_rows) simp_all
  have b: "sum_na [[NaN, NaN], [NaN, NaN]] =
      Inr (map (\<lambda>i. row_sum (row [[NaN, NaN], [NaN, NaN]] i)) [0..<2])"
    by (rule sum_na_rows) simp_all
  have u3: "[0..<3] = [0, 1, 2]" and u2: "[0..<2] = [0, 1]" by (simp_all add: upt_rec)
  show ?thesis
    unfolding a b u3 u2 by (simp add: row_def row_sum_def isnan_def)
qed

text \<open>
  C5. \<^verbatim>\<open>IncomeField.remove_missing\<close> turns exactly the values of its sentinel list into
  the missing marker and leaves every other element as it is; the cleaning step of
  \<^verbatim>\<open>Field.transform\<close> does the same for its one declared sentinel. With the sentinels
  -1 and 999999 the column [10, -1, 999999, 42] becomes [10, missing, missing, 42].
\<close>

theorem remove_missing_sentinels:
  "remove_missing lst =
     map (\<lambda>c. if c \<in> Num ` {-1, 999999, 9999999, 99999999, 999999999, 999999999999}
               then NaN else c) lst
   \<and> where_missing (Some m) lst = map (\<lambda>c. if c = Num m then NaN else c) lst
   \<and> remove_missing [Num 10, Num (-1), Num 999999, Num 42] = [Num 10, NaN, NaN, Num 42]"
proof -
  have r: "remove_missing l =
      map (\<lambda>c. if c \<in> Num ` set income_missing then NaN else c) l" for l
    unfolding remove_missing_def by (rule fold_mask_value)
  have s: "set income_missing = {-1, 999999, 9999999, 99999999, 999999999, 999999999999}"
    by (simp add: income_missing_def)
  have w: "where_missing (Some m) lst = map (\<lambda>c. if c = Num m then NaN else c) lst"
    by (simp add: where_missing_def)
  have e: "remove_missing [Num 10, Num (-1), Num 999999, Num 42] = [Num 10, NaN, NaN, Num 42]"
    unfolding r s by simp
  show ?thesis using r[of lst] w e unfolding s by simp
qed

section \<open>Properties of tables and of the cache\<close>

subsection \<open>Tables\<close>

lemma map_of_None_columns: "(map_of df k = None) = (k \<notin> set (columns df))"
  by (simp add: columns_def map_of_eq_None_iff)

lemma columns_setitem:
  "columns (setitem df k v) = (if k \<in> set (columns df) then columns df else columns df @ [k])"
  by (induction df) (auto simp: setitem_def columns_def)

lemma set_columns_setitem [simp]: "set (columns (setitem df k v)) = insert k (set (columns df))"
  by (auto simp: columns_setitem)

lemma map_of_replace:
  "map_of (map (\<lambda>(n, c). if n = k then (n, v) else (n, c)) df) k' =
     (if k' = k then (if k \<in> fst ` set df then Some v else None) else map_of df k')"
  by (induction df) (force simp: image_iff)+

lemma map_of_setitem [simp]:
  "map_of (setitem df k v) k' = (if k' = k then Some v else map_of df k')"
proof (cases "k \<in> set (columns df)")
  case True
  then show ?thesis by (simp add: setitem_def map_of_replace columns_def)
next
  case False
  then have "map_of df k = None" by (simp add: map_of_None_columns)
  then show ?thesis using False by (auto simp: setitem_def map_add_def split: option.splits)
qed

lemma getitems_columns: "getitems df ks = Inr out \<Longrightarrow> columns out = ks"
  by (induction ks arbitrary: out) (auto simp: columns_def split: option.splits sum.splits)


subsection \<open>Cache.load and the cache-loading step\<close>

lemma load_loop_eq:
  "load_loop fs yr cols d =
     (case find (\<lambda>c. fs (path yr c) = None) cols of
        Some c \<Rightarrow> Inl (CacheError c)
      | None \<Rightarrow> Inr (\<lambda>k. if k \<in> set cols then fs (path yr k) else d k))"
proof (induction cols arbitrary: d)
  case Nil
  then show ?case by simp
next
  case (Cons c cols)
  show ?case
  proof (cases "fs (path yr c)")
    case None
    then show ?thesis by simp
  next
    case (Some a)
    then show ?thesis
      by (auto simp: Cons.IH split: option.splits intro!: ext)
  qed
qed

lemma load_eq:
  "load fs yr cols =
     (case find (\<lambda>c. fs (path yr c) = None) cols of
        Some c \<Rightarrow> Inl (CacheError c)
      | None \<Rightarrow> Inr (map (\<lambda>c. (c, the (fs (path yr c)))) cols))"
proof (cases "find (\<lambda>c. fs (path yr c) = None) cols")
  case None
  then have "\<forall>c\<in>set cols. fs (path yr c) \<noteq> None" by (simp add: find_None_iff)
  then show ?thesis using None
    by (auto simp: load_def load_loop_eq DataFrame_def)
next
  case (Some c)
  then show ?thesis by (simp add: load_def load_loop_eq)
qed

lemma load_one:
  "load fs yr [c] = (case fs (path yr c) of None \<Rightarrow> Inl (CacheError c) | Some a \<Rightarrow> Inr [(c, a)])"
  by (simp add: load_eq split: option.splits)

lemma load_cached_loop_step:
  "load_cached_loop T fs (attr # rest) df =
     load_cached_loop T fs rest
       (if attr = ''year'' then df
        else case fs (path (year T) attr) of None \<Rightarrow> df | Some a \<Rightarrow> setitem df attr a)"
  by (simp add: load_one getitem_def split: option.splits)

lemma load_cached_loop_ok:
  "\<exists>df'. load_cached_loop T fs attrs df = Inr df' \<and>
     (\<forall>c. map_of df' c =
        (if c \<in> set attrs \<and> c \<noteq> ''year'' \<and> fs (path (year T) c) \<noteq> None
         then fs (path (year T) c) else map_of df c))"
proof (induction attrs arbitrary: df)
  case Nil
  then show ?case by simp
next
  case (Cons attr rest)
  let ?df = "if attr = ''year'' then df
        else case fs (path (year T) attr) of None \<Rightarrow> df | Some a \<Rightarrow> setitem df attr a"
  from Cons.IH[of ?df] obtain df' where
    df': "load_cached_loop T fs rest ?df = Inr df'"
      "\<forall>c. map_of df' c = (if c \<in> set rest \<and> c \<noteq> ''year'' \<and> fs (path (year T) c) \<noteq> None
         then fs (path (year T) c) else map_of ?df c)" by blast
  have "load_cached_loop T fs (attr # rest) df = Inr df'"
    unfolding load_cached_loop_step using df'(1) .
  moreover have "\<forall>c. map_of df' c =
        (if c \<in> set (attr # rest) \<and> c \<noteq> ''year'' \<and> fs (path (year T) c) \<noteq> None
         then fs (path (year T) c) else map_of df c)"
    using df'(2) by (auto split: option.splits)
  ultimately show ?case by blast
qed

lemma load_cached_loop_columns:
  "load_cached_loop T fs attrs df = Inr df' \<Longrightarrow>
     length (columns df') \<le> length (columns df) + length attrs \<and>
     (length (columns df') = length (columns df) + length attrs \<longrightarrow> columns df' = columns df @ attrs)"
proof (induction attrs arbitrary: df)
  case Nil
  then show ?case by simp
next
  case (Cons attr rest)
  let ?df = "if attr = ''year'' then df
        else case fs (path (year T) attr) of None \<Rightarrow> df | Some a \<Rightarrow> setitem df attr a"
  have r: "load_cached_loop T fs rest ?df = Inr df'"
    using Cons.prems unfolding load_cached_loop_step .
  note ih = Cons.IH[OF r]
  have c: "columns ?df = columns df \<or> columns ?df = columns df @ [attr]"
    by (auto simp: columns_setitem split: option.splits)
  then show ?case
  proof
    assume "columns ?df = columns df"
    then show ?thesis using ih by auto
  next
    assume "columns ?df = columns df @ [attr]"
    then show ?thesis using ih by auto
  qed
qed

lemma load_cached_full:
  assumes "load_cached T fs = Inr df" and "length (columns df) = length (requested T)"
  shows "columns df = requested T"
  using load_cached_loop_columns[of T fs "requested T" "[]" df] assms
  by (simp add: load_cached_def columns_def)

subsection \<open>File names of the cache\<close>

lemma digit_char_inj: "d < 10 \<Longrightarrow> d' < 10 \<Longrightarrow> digit_char d = digit_char d' \<Longrightarrow> d = d'"
proof -
  assume a: "d < 10" "d' < 10" "digit_char d = digit_char d'"
  have "distinct ''0123456789''" by simp
  moreover have "d < length ''0123456789''" "d' < length ''0123456789''" using a by simp_all
  ultimately show ?thesis using a(3) unfolding digit_char_def
    by (simp only: nth_eq_iff_index_eq)
qed

lemma digit_char_not_minus: "d < 10 \<Longrightarrow> digit_char d \<noteq> CHR ''-''"
proof -
  assume "d < 10"
  then have "d < length ''0123456789''" by simp
  then have "''0123456789'' ! d \<in> set ''0123456789''" by (rule nth_mem)
  then show ?thesis unfolding digit_char_def by auto
qed

lemma str_nat_nonempty: "str_nat n \<noteq> []"
  by (subst str_nat.simps) simp

lemma str_nat_no_minus: "CHR ''-'' \<notin> set (str_nat n)"
proof (induction n rule: str_nat.induct)
  case (1 n)
  show ?case
  proof (cases "n < 10")
    case True
    then show ?thesis using digit_char_not_minus[of n] by (subst str_nat.simps) auto
  next
    case False
    then show ?thesis using 1 digit_char_not_minus[of "n mod 10"]
      by (subst str_nat.simps) auto
  qed
qed

lemma str_nat_inj: "str_nat n = str_nat m \<Longrightarrow> n = m"
proof (induction n arbitrary: m rule: str_nat.induct)
  case (1 n)
  show ?case
  proof (cases "n < 10")
    case n: True
    show ?thesis
    proof (cases "m < 10")
      case True
      then show ?thesis using n "1.prems" digit_char_inj[of n m]
        by (simp add: str_nat.simps[of n] str_nat.simps[of m])
    next
      case False
      then show ?thesis using n "1.prems" str_nat_nonempty[of "m div 10"]
        by (simp add: str_nat.simps[of n] str_nat.simps[of m])
    qed
  next
    case n: False
    show ?thesis
    proof (cases "m < 10")
      case True
      then show ?thesis using n "1.prems" str_nat_nonempty[of "n div 10"]
        by (simp add: str_nat.simps[of n] str_nat.simps[of m])
    next
      case False
      have e: "str_nat (n div 10) @ [digit_char (n mod 10)] = str_nat (m div 10) @ [digit_char (m mod 10)]"
        using n False "1.prems" by (simp add: str_nat.simps[of n] str_nat.simps[of m])
      then have "str_nat (n div 10) = str_nat (m div 10)" and d: "digit_char (n mod 10) = digit_char (m mod 10)"
        by simp_all
      then have q: "n div 10 = m div 10" using "1.IH"[OF n] by simp
      have r: "n mod 10 = m mod 10" using d digit_char_inj[of "n mod 10" "m mod 10"] by simp
      show ?thesis using q r by (metis div_mult_mod_eq)
    qed
  qed
qed

lemma split_at_last:
  assumes "xs @ sep # ds = xs' @ sep # ds'" and "sep \<notin> set ds" and "sep \<notin> set ds'"
  shows "xs = xs' \<and> ds = ds'"
proof -
  have r: "rev ds @ sep # rev xs = rev ds' @ sep # rev xs'"
    using arg_cong[OF assms(1), of rev] by simp
  have t: "takeWhile (\<lambda>c. c \<noteq> sep) (rev zs @ sep # ws) = rev zs" if "sep \<notin> set zs" for zs ws
    using that by (subst takeWhile_append2) auto
  have "rev ds = rev ds'" using t[OF assms(2), of "rev xs"] t[OF assms(3), of "rev xs'"] r by simp
  then show ?thesis using assms(1) by simp
qed

lemma path_inj_name: "path yr c = path yr c' \<Longrightarrow> c = c'"
  by (simp add: path_def cache_path_def)

lemma path_inj:
  assumes "0 \<le> yr" and "0 \<le> yr'" and "path yr c = path yr' c'"
  shows "yr = yr' \<and> c = c'"
proof -
  have "c @ CHR ''-'' # str_nat (nat yr) = c' @ CHR ''-'' # str_nat (nat yr')"
    using assms by (simp add: path_def cache_path_def str_int_def)
  from split_at_last[OF this str_nat_no_minus str_nat_no_minus]
  have "c = c'" and "str_nat (nat yr) = str_nat (nat yr')" by simp_all
  then show ?thesis using str_nat_inj assms(1,2) by fastforce
qed

lemma path_eq_iff:
  "path yr c = path yr' c' \<longleftrightarrow>
     (yr = yr' \<and> c = c')
     \<or> (0 < yr \<and> yr' = - yr \<and> c = c' @ ''-'')
     \<or> (0 < yr' \<and> yr = - yr' \<and> c' = c @ ''-'')"
proof -
  have key: "path yr c = path yr' c' \<longleftrightarrow> c @ CHR ''-'' # str_int yr = c' @ CHR ''-'' # str_int yr'"
    by (simp add: path_def cache_path_def)
  have pos: "str_int i = str_nat (nat i)" if "0 \<le> i" for i using that by (simp add: str_int_def)
  have neg: "str_int i = CHR ''-'' # str_nat (nat (- i))" if "i < 0" for i using that by (simp add: str_int_def)
  show ?thesis
  proof (cases "0 \<le> yr")
    case y: True
    show ?thesis
    proof (cases "0 \<le> yr'")
      case True
      have "c @ CHR ''-'' # str_nat (nat yr) = c' @ CHR ''-'' # str_nat (nat yr') \<Longrightarrow> yr = yr' \<and> c = c'"
      proof -
        assume a: "c @ CHR ''-'' # str_nat (nat yr) = c' @ CHR ''-'' # str_nat (nat yr')"
        from split_at_last[OF this str_nat_no_minus str_nat_no_minus]
        have "c = c'" and "str_nat (nat yr) = str_nat (nat yr')" by simp_all
        then show ?thesis using str_nat_inj y True by fastforce
      qed
      then show ?thesis using y True unfolding key by (auto simp: pos)
    next
      case False
      then have n: "yr' < 0" by simp
      have "c @ CHR ''-'' # str_nat (nat yr) = c' @ CHR ''-'' # CHR ''-'' # str_nat (nat (- yr'))
          \<longleftrightarrow> c = c' @ ''-'' \<and> yr = - yr'"
      proof
        assume a: "c @ CHR ''-'' # str_nat (nat yr) = c' @ CHR ''-'' # CHR ''-'' # str_nat (nat (- yr'))"
        then have "c @ CHR ''-'' # str_nat (nat yr) = (c' @ ''-'') @ CHR ''-'' # str_nat (nat (- yr'))"
          by simp
        from split_at_last[OF this str_nat_no_minus str_nat_no_minus]
        have "c = c' @ ''-''" and "str_nat (nat yr) = str_nat (nat (- yr'))" by simp_all
        then show "c = c' @ ''-'' \<and> yr = - yr'" using str_nat_inj y n by fastforce
      next
        assume "c = c' @ ''-'' \<and> yr = - yr'"
        then show "c @ CHR ''-'' # str_nat (nat yr) = c' @ CHR ''-'' # CHR ''-'' # str_nat (nat (- yr'))"
          by simp
      qed
      then show ?thesis using y n unfolding key by (auto simp: pos neg)
    qed
  next
    case False
    then have y: "yr < 0" by simp
    show ?thesis
    proof (cases "0 \<le> yr'")
      case True
      have "c @ CHR ''-'' # CHR ''-'' # str_nat (nat (- yr)) = c' @ CHR ''-'' # str_nat (nat yr')
          \<longleftrightarrow> c' = c @ ''-'' \<and> yr' = - yr"
      proof
        assume a: "c @ CHR ''-'' # CHR ''-'' # str_nat (nat (- yr)) = c' @ CHR ''-'' # str_nat (nat yr')"
        then have "(c @ ''-'') @ CHR ''-'' # str_nat (nat (- yr)) = c' @ CHR ''-'' # str_nat (nat yr')"
          by simp
        from split_at_last[OF this str_nat_no_minus str_nat_no_minus]
        have "c @ ''-'' = c'" and "str_nat (nat (- yr)) = str_nat (nat yr')" by simp_all
        then show "c' = c @ ''-'' \<and> yr' = - yr" using str_nat_inj y True by fastforce
      next
        assume "c' = c @ ''-'' \<and> yr' = - yr"
        then show "c @ CHR ''-'' # CHR ''-'' # str_nat (nat (- yr)) = c' @ CHR ''-'' # str_nat (nat yr')"
          by simp
      qed
      then show ?thesis using y True unfolding key by (auto simp: pos neg)
    next
      case False
      then have n: "yr' < 0" by simp
      have "c @ CHR ''-'' # CHR ''-'' # str_nat (nat (- yr)) = c' @ CHR ''-'' # CHR ''-'' # str_nat (nat (- yr'))
          \<Longrightarrow> yr = yr' \<and> c = c'"
      proof -
        assume "c @ CHR ''-'' # CHR ''-'' # str_nat (nat (- yr)) = c' @ CHR ''-'' # CHR ''-'' # str_nat (nat (- yr'))"
        then have "(c @ ''-'') @ CHR ''-'' # str_nat (nat (- yr)) = (c' @ ''-'') @ CHR ''-'' # str_nat (nat (- yr'))"
          by simp
        from split_at_last[OF this str_nat_no_minus str_nat_no_minus]
        have "c = c'" and "str_nat (nat (- yr)) = str_nat (nat (- yr'))" by simp_all
        then show ?thesis using str_nat_inj y n by fastforce
      qed
      then show ?thesis using y n unfolding key by (auto simp: neg)
    qed
  qed
qed

subsection \<open>Cache.save\<close>

lemma save_other: "p \<notin> path yr ` set (columns dat) \<Longrightarrow> save yr dat fs p = fs p"
  by (induction dat arbitrary: fs) (auto simp: columns_def)

lemma save_hit:
  "save yr dat fs (path yr c) =
     (case map_of (rev dat) c of None \<Rightarrow> fs (path yr c) | Some a \<Rightarrow> Some a)"
proof (induction dat arbitrary: fs)
  case Nil
  then show ?case by simp
next
  case (Cons x dat)
  obtain n col where x: "x = (n, col)" by (cases x)
  show ?case
    unfolding x using path_inj_name[of yr c n]
    by (auto simp: Cons.IH map_add_def split: option.splits)
qed

lemma map_of_rev_distinct: "distinct (columns dat) \<Longrightarrow> map_of (rev dat) = map_of dat"
  unfolding columns_def by (rule map_of_inject_set[THEN iffD2]) (simp_all add: distinct_rev rev_map[symmetric])

lemma save_hit_distinct:
  "distinct (columns dat) \<Longrightarrow>
   save yr dat fs (path yr c) =
     (case map_of dat c of None \<Rightarrow> fs (path yr c) | Some a \<Rightarrow> Some a)"
  by (simp add: save_hit map_of_rev_distinct)

section \<open>Properties of a session\<close>

subsection \<open>The raw handle and the call counter\<close>

lemma step_refl [simp]: "step T s (Inr v) s"
  by (simp add: step_def split: option.splits)

lemma step_data [simp]: "step T s r (s'\<lparr>data := d\<rparr>) = step T s r s'"
  by (simp add: step_def split: option.splits sum.splits)

lemma step_from_data [simp]: "step T (s\<lparr>data := d\<rparr>) r s' = step T s r s'"
  by (simp add: step_def split: option.splits sum.splits)

lemma step_error [simp]: "step T s (Inl e) s"
  by (simp add: step_def split: option.splits)





lemma step_raw_lookup:
  "step T s (Inr v) s' \<Longrightarrow> step T s (fst (raw_lookup item exc r s')) (snd (raw_lookup item exc r s'))"
  by (auto simp: raw_lookup_def step_def split: option.splits sum.splits)


subsection \<open>No CacheError leaves the evaluation of a field\<close>

lemma insert_item_error: "insert_item x ys = Inl e \<Longrightarrow> e = TypeError"
proof (induction ys)
  case Nil
  then show ?case by simp
next
  case (Cons y ys)
  obtain a b v where x: "x = (a, b, v)" by (cases x)
  obtain a' b' v' where y: "y = (a', b', v')" by (cases y)
  have t: "tuple_lt y x = Inl e' \<Longrightarrow> e' = TypeError" for e'
    unfolding x y by (cases v'; cases v) (auto split: if_splits)
  show ?case using Cons t
    by (auto split: sum.splits bool.splits)
qed

lemma list_sort_error: "list_sort xs = Inl e \<Longrightarrow> e = TypeError"
  by (induction xs arbitrary: e) (auto split: sum.splits dest: insert_item_error)

lemma first_match_error: "first_match y S = Inl e \<Longrightarrow> e = ValueError"
  by (induction y S rule: first_match.induct) (auto split: if_splits)

lemma select_by_year_error: "select_by_year y D = Inl e \<Longrightarrow> e = TypeError \<or> e = ValueError"
  by (auto simp: select_by_year_def split: sum.splits dest: list_sort_error first_match_error)

lemma exn_not_cache: "exn e \<noteq> CacheError c"
  by (cases e) auto

lemma raw_lookup_error: "fst (raw_lookup item exc r s) = Inl e \<Longrightarrow> e = exc"
  by (auto simp: raw_lookup_def split: option.splits)

lemma eval_no_cache_error:
  "fst (proxy_get n T a item s) \<noteq> Inl (CacheError c)"
  "exc \<noteq> CacheError c \<Longrightarrow> fst (fallback n T item exc s) \<noteq> Inl (CacheError c)"
  "fst (transform n T d s) \<noteq> Inl (CacheError c)"
  "fst (field_transform n T sp m s) \<noteq> Inl (CacheError c)"
  "fst (read_column n T f m s) \<noteq> Inl (CacheError c)"
  "fst (run n T fn s) \<noteq> Inl (CacheError c)"
proof (induction n T a item s and n T item exc s and n T d s and n T sp m s and n T f m s and n T fn s
    rule: proxy_get_fallback_transform_field_transform_read_column_run.induct)
  case (1 n T a item s)
  then show ?case by (cases a) (auto split: option.splits)
next
  case (2 n T item exc s)
  show ?case
  proof (cases "item = ''year''")
    case True
    then show ?thesis by simp
  next
    case ny: False
    show ?thesis
    proof (cases "descriptors T item")
      case None
      then show ?thesis using ny 2(2)
        by (cases "raw s"; cases "loader T") (auto dest: raw_lookup_error simp: exn_not_cache)
    next
      case (Some d)
      show ?thesis
      proof (cases n)
        case 0
        then show ?thesis using ny Some by simp
      next
        case (Suc k)
        have ih: "fst (transform k T d s) \<noteq> Inl (CacheError c)" using 2 ny Some Suc by simp
        obtain x y where xy: "transform k T d s = (x, y)" by (cases "transform k T d s")
        show ?thesis using ny Some Suc xy ih by (cases x) simp_all
      qed
    qed
  qed
next
  case (3 n T sp m s)
  then show ?case by simp
next
  case (4 n T sp m s)
  then show ?case by (auto split: prod.splits sum.splits option.splits)
next
  case (5 n T f s)
  then show ?case by simp
next
  case (6 n T f m s)
  then show ?case by simp
next
  case (7 n T D m s)
  then show ?case by (auto split: sum.splits outcome.splits dest: select_by_year_error)
next
  case (8 n T m s)
  then show ?case by simp
next
  case (9 n T f m s)
  then show ?case by (auto split: prod.splits sum.splits error.splits)
next
  case (10 n T v s)
  then show ?case by simp
next
  case (11 n T e s)
  then show ?case by (simp add: exn_not_cache)
next
  case (12 T a item cont s)
  then show ?case by simp
next
  case (13 n T a item cont s)
  show ?case
  proof (cases "proxy_get n T a item s")
    case (Pair x y)
    then show ?thesis using 13 by (cases x) auto
  qed
qed

lemma resolve_loop_no_cache_error:
  "fst (resolve_loop n T attrs extra s) \<noteq> Inl (CacheError c)"
proof (induction attrs arbitrary: extra s)
  case Nil
  then show ?case by simp
next
  case (Cons attr rest)
  obtain x y where xy: "proxy_get n T ByAttr attr s = (x, y)" by (cases "proxy_get n T ByAttr attr s")
  have "x \<noteq> Inl (CacheError c)" using eval_no_cache_error(1)[of n T ByAttr attr s c] xy by simp
  then show ?case using Cons xy
    by (cases x) (auto split: option.splits)
qed



subsection \<open>A call for one field that the year lacks\<close>

lemma load_cached_single:
  "f \<noteq> ''year'' \<Longrightarrow> requested T = [f] \<Longrightarrow>
   load_cached T fs = Inr (case fs (path (year T) f) of None \<Rightarrow> [] | Some a \<Rightarrow> [(f, a)])"
  by (simp add: load_cached_def load_cached_loop_step setitem_def columns_def
      del: load_cached_loop.simps(2) split: option.splits)

lemma call_single_cached:
  assumes "f \<noteq> ''year''" and "requested T = [f]" and "cache w (path (year T) f) = Some a"
  shows "call n T w = (Inr [(f, a)], w)"
  using assms by (simp add: call_def load_cached_single columns_def)

lemma call_single_field_unavailable:
  assumes "f \<noteq> ''year''" and "requested T = [f]" and "cache w (path (year T) f) = None"
    and "select_by_year (year T) D = Inr Unavailable"
    and "descriptors T f = Some (Field (Years D) m)"
  shows "call (Suc n) T w = (Inr [(f, NoneFill)], w)"
  using assms
  by (simp add: call_def load_cached_single columns_def setitem_def)

lemma call_single_income_unavailable:
  assumes "f \<noteq> ''year''" and "requested T = [f]" and "cache w (path (year T) f) = None"
    and "select_by_year (year T) D = Inr Unavailable"
    and "descriptors T f = Some (IncomeField (Years D) m)"
  shows "fst (call (Suc n) T w) = Inr [(f, Fill NaN)] \<and> loads (snd (call (Suc n) T w)) = loads w"
  using assms
  by (simp add: call_def load_cached_single columns_def setitem_def)

subsection \<open>Columns of the working table are never replaced\<close>



subsection \<open>The loop over the requested names\<close>







subsection \<open>A second call after everything was cached\<close>








section \<open>The claims about a session and a call\<close>






text \<open>
  C7. \<^verbatim>\<open>Cache.load\<close> fails with the CacheError of the first requested name that has no
  file and otherwise returns the files of all names; the cache-loading step of the
  transformer never fails and returns exactly the requested columns, other than year,
  that have a file; and no call of the transformer ends in a CacheError.
\<close>

theorem cache_miss_recovered:
  "load fs yr cols =
     (case find (\<lambda>c. fs (path yr c) = None) cols of
        Some c \<Rightarrow> Inl (CacheError c)
      | None \<Rightarrow> Inr (map (\<lambda>c. (c, the (fs (path yr c)))) cols))
   \<and> (\<exists>df. load_cached T fs = Inr df \<and>
         (\<forall>c. map_of df c =
            (if c \<in> set (requested T) \<and> c \<noteq> ''year'' then fs (path (year T) c) else None)))
   \<and> fst (call n T w) \<noteq> Inl (CacheError c')"
proof -
  obtain df where df: "load_cached T fs = Inr df"
    and m: "\<forall>c. map_of df c =
        (if c \<in> set (requested T) \<and> c \<noteq> ''year'' \<and> fs (path (year T) c) \<noteq> None
         then fs (path (year T) c) else map_of [] c)"
    using load_cached_loop_ok[of T fs "requested T" "[]"] by (auto simp: load_cached_def)
  have m': "\<forall>c. map_of df c =
        (if c \<in> set (requested T) \<and> c \<noteq> ''year'' then fs (path (year T) c) else None)"
    using m by auto
  obtain dfw where dfw: "load_cached T (cache w) = Inr dfw"
    using load_cached_loop_ok[of T "cache w" "requested T" "[]"] by (auto simp: load_cached_def)
  let ?s0 = "\<lparr>data = dfw, raw = None, calls = loads w\<rparr>"
  obtain r s where rs: "resolve_loop n T (requested T) [] ?s0 = (r, s)"
    by (cases "resolve_loop n T (requested T) [] ?s0")
  have r: "r \<noteq> Inl (CacheError c')"
    using resolve_loop_no_cache_error[of n T "requested T" "[]" ?s0 c'] rs by simp
  have g: "getitems d ks \<noteq> Inl (CacheError c')" for d ks
    by (induction ks) (auto split: option.splits sum.splits)
  have "fst (call n T w) \<noteq> Inl (CacheError c')"
    using dfw rs r g unfolding call_def
    by (cases r) (auto simp: Let_def split: sum.splits)
  then show ?thesis using load_eq[of fs yr cols] df m' by blast
qed




text \<open>
  C9. The table a call returns has its columns in the order of the requested names:
  the list of its column names is the list of requested names restricted to the names
  that are columns of the result, whatever the order in which the working table got
  them.
\<close>

theorem call_order:
  assumes "fst (call n T w) = Inr out"
  shows "columns out = filter (\<lambda>c. c \<in> set (columns out)) (requested T)"
proof -
  obtain df where df: "load_cached T (cache w) = Inr df"
    using load_cached_loop_ok[of T "cache w" "requested T" "[]"] by (auto simp: load_cached_def)
  show ?thesis
  proof (cases "length (columns df) = length (requested T)")
    case True
    then have "out = df" using assms df by (simp add: call_def)
    then show ?thesis using load_cached_full[OF df True] by simp
  next
    case False
    obtain r s where rs: "resolve_loop n T (requested T) [] \<lparr>data = df, raw = None, calls = loads w\<rparr> = (r, s)"
      by (cases "resolve_loop n T (requested T) [] \<lparr>data = df, raw = None, calls = loads w\<rparr>")
    then obtain extra where r: "r = Inr extra" using assms df False
      by (cases r) (auto simp: call_def)
    define new where "new = (if ''year'' \<in> set (requested T)
                             then setitem (data s) ''year'' (Fill (Num (of_int (year T))))
                             else data s)"
    have g: "getitems new (filter (\<lambda>c. c \<in> set (columns new)) (requested T)) = Inr out"
      using assms df False rs r unfolding call_def new_def
      by (auto simp: Let_def split: sum.splits)
    from getitems_columns[OF g] have c: "columns out = filter (\<lambda>c. c \<in> set (columns new)) (requested T)" .
    then have "set (columns out) = {c \<in> set (requested T). c \<in> set (columns new)}" by auto
    then have "filter (\<lambda>c. c \<in> set (columns out)) (requested T) = filter (\<lambda>c. c \<in> set (columns new)) (requested T)"
      by (intro filter_cong) auto
    with c show ?thesis by simp
  qed
qed


theorem call_order_witness:
  "fst (call 4 (example [''gender'', ''gender_id'']) empty_world) =
     Inr [(''gender'', Arr [Num 1, Num 3]), (''gender_id'', Arr [Num 1, Num 3])]
   \<and> columns [(''gender'', Arr [Num 1, Num 3]), (''gender_id'', Arr [Num 1, Num 3])] =
       filter (\<lambda>c. c \<in> set (columns [(''gender'', Arr [Num 1, Num 3]), (''gender_id'', Arr [Num 1, Num 3])]))
         (requested (example [''gender'', ''gender_id'']))"
proof -
  have e: "fst (call 4 (example [''gender'', ''gender_id'']) empty_world) =
     Inr [(''gender'', Arr [Num 1, Num 3]), (''gender_id'', Arr [Num 1, Num 3])]"
    by code_simp
  from call_order[OF e] e show ?thesis by simp
qed

section \<open>The claim about a field that a year lacks\<close>

text \<open>
  C2, as amended. Let \<open>f\<close> be the one requested field, declared by a descriptor with a
  year specification that resolves to unavailable (None) for the year of the
  transformer. Then the call raises no error. For a plain \<^verbatim>\<open>Field\<close> it leaves the cache
  and the loader untouched: nothing is computed or saved for \<open>f\<close>. For an
  \<^verbatim>\<open>IncomeField\<close> the loader is not called either, but the returned table has the column
  \<open>f\<close>, which is the all-missing column when \<open>f\<close> had no cache entry.
\<close>

theorem unavailable_field:
  assumes "f \<noteq> ''year''" and "requested T = [f]"
    and "select_by_year (year T) D = Inr Unavailable"
  shows "(descriptors T f = Some (Field (Years D) m) \<longrightarrow>
            (\<exists>out. call (Suc n) T w = (Inr out, w)))
       \<and> (descriptors T f = Some (IncomeField (Years D) m) \<longrightarrow>
            (\<exists>out. fst (call (Suc n) T w) = Inr out \<and> f \<in> set (columns out)
                \<and> loads (snd (call (Suc n) T w)) = loads w
                \<and> (cache w (path (year T) f) = None \<longrightarrow> out = [(f, Fill NaN)])))"
proof (cases "cache w (path (year T) f)")
  case None
  show ?thesis
    using call_single_field_unavailable[OF assms(1,2) None assms(3), of m n]
      call_single_income_unavailable[OF assms(1,2) None assms(3), of m n]
    by (auto simp: columns_def)
next
  case (Some a)
  show ?thesis
    using call_single_cached[OF assms(1,2) Some, of "Suc n"] Some
    by (auto simp: columns_def)
qed

theorem unavailable_field_witness:
  "(\<exists>out. call (Suc 3) (example [''occupation_year'']) empty_world = (Inr out, empty_world))
   \<and> (\<exists>out. fst (call (Suc 3) (example [''income_retirement_other'']) empty_world) = Inr out
          \<and> ''income_retirement_other'' \<in> set (columns out))"
proof -
  have s1: "select_by_year (year (example [''occupation_year'']))
      [(Pair (Year 1992) Open, Col ''V9971''), (Pair Open (Year 1990), Unavailable)] = Inr Unavailable"
    by (simp add: select_by_year_def ext_le_def example_def)
  have d1: "descriptors (example [''occupation_year'']) ''occupation_year'' =
      Some (Field (Years [(Pair (Year 1992) Open, Col ''V9971''), (Pair Open (Year 1990), Unavailable)])
              (Some (- 1)))"
    by (simp add: example_def example_catalog_def)
  have a: "\<exists>out. call (Suc 3) (example [''occupation_year'']) empty_world = (Inr out, empty_world)"
    using unavailable_field[where f = "''occupation_year''" and T = "example [''occupation_year'']"
        and m = "Some (- 1)" and n = 3 and w = empty_world, OF _ _ s1] d1
    by (simp add: example_def)
  have s2: "select_by_year (year (example [''income_retirement_other'']))
      [(Pair (Year 1992) Open, Col ''V1258''), (Pair Open (Year 1990), Unavailable)] = Inr Unavailable"
    by (simp add: select_by_year_def ext_le_def example_def)
  have d2: "descriptors (example [''income_retirement_other'']) ''income_retirement_other'' =
      Some (IncomeField (Years [(Pair (Year 1992) Open, Col ''V1258''), (Pair Open (Year 1990), Unavailable)])
              (Some (- 1)))"
    by (simp add: example_def example_catalog_def)
  have b: "\<exists>out. fst (call (Suc 3) (example [''income_retirement_other'']) empty_world) = Inr out
          \<and> ''income_retirement_other'' \<in> set (columns out)"
    using unavailable_field[where f = "''income_retirement_other''"
        and T = "example [''income_retirement_other'']"
        and m = "Some (- 1)" and n = 3 and w = empty_world, OF _ _ s2] d2
    by (auto simp: example_def)
  from a b show ?thesis by blast
qed

text \<open>
  C2 as stated fails for an income field: \<^verbatim>\<open>income_retirement_other\<close> is declared
  unavailable up to 1990, and for 1985 \<^verbatim>\<open>IncomeField.transform\<close> turns the None of
  \<^verbatim>\<open>Field.transform\<close> into a column of missing values, which the call returns under the
  name of the field.
\<close>

theorem unavailable_income_column:
  "select_by_year 1985 [(Pair (Year 1992) Open, Col ''V1258''), (Pair Open (Year 1990), Unavailable)]
     = Inr Unavailable
   \<and> fst (call 4 (example [''income_retirement_other'']) empty_world)
     = Inr [(''income_retirement_other'', Fill NaN)]"
proof -
  have s: "select_by_year (year (example [''income_retirement_other'']))
      [(Pair (Year 1992) Open, Col ''V1258''), (Pair Open (Year 1990), Unavailable)] = Inr Unavailable"
    by (simp add: select_by_year_def ext_le_def example_def)
  have "fst (call (Suc 3) (example [''income_retirement_other'']) empty_world)
     = Inr [(''income_retirement_other'', Fill NaN)]"
    using call_single_income_unavailable[where f = "''income_retirement_other''"
        and T = "example [''income_retirement_other'']" and w = empty_world and n = 3, OF _ _ _ s]
    by (simp add: example_def example_catalog_def empty_world_def)
  then show ?thesis using s by (simp add: example_def)
qed

section \<open>The claim about a second call\<close>






section \<open>The claim about the cache\<close>

text \<open>
  C10, as amended. After \<^verbatim>\<open>Cache.save(year, data)\<close> of a table with distinct column
  names that are plain file names, \<^verbatim>\<open>Cache.load(year, cols)\<close> for any list of saved
  names returns exactly those columns, in that order, with the saved values; saving
  again under the same year and name replaces the entry; and the entry of every other
  pair of year and name is left as it was, unless the two pairs share their file: for
  a year y above 0, the pair of y and a name ending in a dash shares its file with the
  pair of -y and the name without that dash, and no other two pairs share one.
\<close>

theorem cache_round_trip:
  assumes "distinct (columns dat)" and "\<forall>k\<in>set (columns dat). plain yr k"
    and "set cols \<subseteq> set (columns dat)"
  shows "load (save yr dat fs) yr cols = Inr (map (\<lambda>c. (c, the (map_of dat c))) cols)
     \<and> (distinct (columns dat') \<and> (\<forall>k\<in>set (columns dat'). plain yr k) \<and> f \<in> set (columns dat') \<longrightarrow>
          save yr dat' (save yr dat fs) (path yr f) = map_of dat' f)
     \<and> ((\<forall>k\<in>set (columns dat).
            (yr', f') \<noteq> (yr, k)
            \<and> \<not> (0 < yr \<and> yr' = - yr \<and> k = f' @ ''-'')
            \<and> \<not> (0 < yr' \<and> yr = - yr' \<and> f' = k @ ''-'')) \<longrightarrow>
          save yr dat fs (path yr' f') = fs (path yr' f'))"
proof -
  have hit: "save yr dat fs (path yr c) = map_of dat c" if "c \<in> set (columns dat)" for c
  proof -
    from that obtain a where "map_of dat c = Some a"
      using map_of_None_columns[of dat c] by (cases "map_of dat c") auto
    then show ?thesis using assms(1) by (simp add: save_hit_distinct)
  qed
  have some: "save yr dat fs (path yr c) \<noteq> None" if "c \<in> set cols" for c
    using that assms(3) hit[of c] map_of_None_columns[of dat c] by auto
  have "find (\<lambda>c. save yr dat fs (path yr c) = None) cols = None"
    using some by (simp add: find_None_iff)
  then have a: "load (save yr dat fs) yr cols = Inr (map (\<lambda>c. (c, the (map_of dat c))) cols)"
    using assms(3) hit by (auto simp: load_eq)
  have b: "distinct (columns dat') \<and> (\<forall>k\<in>set (columns dat'). plain yr k) \<and> f \<in> set (columns dat') \<longrightarrow>
          save yr dat' (save yr dat fs) (path yr f) = map_of dat' f"
    using map_of_None_columns[of dat' f]
    by (cases "map_of dat' f") (auto simp: save_hit_distinct)
  have c: "(\<forall>k\<in>set (columns dat).
            (yr', f') \<noteq> (yr, k)
            \<and> \<not> (0 < yr \<and> yr' = - yr \<and> k = f' @ ''-'')
            \<and> \<not> (0 < yr' \<and> yr = - yr' \<and> f' = k @ ''-'')) \<longrightarrow>
          save yr dat fs (path yr' f') = fs (path yr' f')"
  proof
    assume h: "\<forall>k\<in>set (columns dat).
            (yr', f') \<noteq> (yr, k)
            \<and> \<not> (0 < yr \<and> yr' = - yr \<and> k = f' @ ''-'')
            \<and> \<not> (0 < yr' \<and> yr = - yr' \<and> f' = k @ ''-'')"
    have "path yr' f' \<notin> path yr ` set (columns dat)"
    proof
      assume "path yr' f' \<in> path yr ` set (columns dat)"
      then obtain k where k: "k \<in> set (columns dat)" "path yr k = path yr' f'" by auto
      from k(2) have "(yr = yr' \<and> k = f')
         \<or> (0 < yr \<and> yr' = - yr \<and> k = f' @ ''-'')
         \<or> (0 < yr' \<and> yr = - yr' \<and> f' = k @ ''-'')"
        unfolding path_eq_iff .
      then show False using h k(1) by auto
    qed
    then show "save yr dat fs (path yr' f') = fs (path yr' f')" by (rule save_other)
  qed
  from a b c show ?thesis by blast
qed


theorem cache_round_trip_witness:
  "load (save 1985 [(''a'', Arr [Num 1]), (''b'', Arr [Num 2])] (\<lambda>p. None)) 1985 [''b'', ''a'']
     = Inr [(''b'', Arr [Num 2]), (''a'', Arr [Num 1])]
   \<and> save 1985 [(''a'', Arr [Num 3])]
        (save 1985 [(''a'', Arr [Num 1]), (''b'', Arr [Num 2])] (\<lambda>p. None)) (path 1985 ''a'')
     = Some (Arr [Num 3])
   \<and> save 1985 [(''a'', Arr [Num 1]), (''b'', Arr [Num 2])] (\<lambda>p. None) (path (-1985) ''a-'') = None"
proof -
  have p: "plain 1985 ''a''" "plain 1985 ''b''"
    by (simp_all add: plain_def str_int_def str_nat.simps digit_char_def)
  show ?thesis
    using cache_round_trip[where dat = "[(''a'', Arr [Num 1]), (''b'', Arr [Num 2])]"
      and cols = "[''b'', ''a'']" and dat' = "[(''a'', Arr [Num 3])]" and f = "''a''"
      and yr = 1985 and yr' = "-1985" and f' = "''a-''" and fs = "\<lambda>p. None"] p
    by (simp add: columns_def)
qed


text \<open>
  C10 as stated fails where two keys share a file: the file name puts the name, a dash
  and the year side by side, so year -5 with name \<^verbatim>\<open>x\<close> and year 5 with name \<^verbatim>\<open>x-\<close>,
  both plain, share a file, and what was saved under the second is replaced by a save
  under the first.
\<close>

theorem cache_key_collision:
  "plain (-5) ''x'' \<and> plain 5 ''x-''
   \<and> load (save (-5) [(''x'', Arr [Num 1])] (save 5 [(''x-'', Arr [Num 2])] (\<lambda>p. None))) 5 [''x-'']
     = Inr [(''x-'', Arr [Num 1])]"
  by (simp add: plain_def load_def DataFrame_def path_def cache_path_def str_int_def str_nat.simps digit_char_def)

end
